theory Spec2Isabelle
  imports Main "HOL-Library.Char_ord" "HOL-Library.List_Lexorder" "HOL-Library.Sublist"
    "HOL-Library.AList"
begin

section \<open>Strings as Python 2 byte strings\<close>

text \<open>
  The module \<^verbatim>\<open>couchdb/multipart.py\<close> works on Python 2 byte strings. A string is a
  \<^typ>\<open>char list\<close>; comparison of strings (used by \<^verbatim>\<open>sorted\<close>) is the lexicographic order
  on bytes, which is the order of \<^verbatim>\<open>HOL-Library.List_Lexorder\<close> over \<^verbatim>\<open>HOL-Library.Char_ord\<close>.
\<close>

definition CR :: char where
  "CR = CHR 0x0D"

definition LF :: char where
  "LF = CHR 0x0A"

text \<open>\<^verbatim>\<open>EOL = '\r\n'\<close>\<close>

definition EOL :: string where
  "EOL = [CR, LF]"

text \<open>\<^verbatim>\<open>str.isspace\<close> on one byte (C locale): space, tab, LF, VT, FF, CR.\<close>

definition isspace :: "char \<Rightarrow> bool" where
  "isspace c = (c = CHR '' '' \<or> c = CHR 0x09 \<or> c = CHR 0x0A \<or> c = CHR 0x0B
     \<or> c = CHR 0x0C \<or> c = CHR 0x0D)"

text \<open>\<^verbatim>\<open>s.strip()\<close>: whitespace removed at both ends.\<close>

definition strip :: "string \<Rightarrow> string" where
  "strip s = rev (dropWhile isspace (rev (dropWhile isspace s)))"

text \<open>\<^verbatim>\<open>s.lower()\<close>: the bytes \<^verbatim>\<open>A\<close>..\<^verbatim>\<open>Z\<close> are mapped to \<^verbatim>\<open>a\<close>..\<^verbatim>\<open>z\<close>.\<close>

definition lower_char :: "char \<Rightarrow> char" where
  "lower_char c =
     (case map_of (zip ''ABCDEFGHIJKLMNOPQRSTUVWXYZ'' ''abcdefghijklmnopqrstuvwxyz'') c of
        None \<Rightarrow> c
      | Some l \<Rightarrow> l)"

definition lower :: "string \<Rightarrow> string" where
  "lower s = map lower_char s"

text \<open>\<^verbatim>\<open>s.startswith(p)\<close> and \<^verbatim>\<open>s.endswith(p)\<close>.\<close>

definition startswith :: "string \<Rightarrow> string \<Rightarrow> bool" where
  "startswith s p = (take (length p) s = p)"

definition endswith :: "string \<Rightarrow> string \<Rightarrow> bool" where
  "endswith s p = (length p \<le> length s \<and> drop (length s - length p) s = p)"

text \<open>
  \<^verbatim>\<open>name, value = line.split(':', 1)\<close>: the split at the first colon. Without a colon
  the split has one element and the unpacking raises \<^verbatim>\<open>ValueError\<close>: the model returns
  \<open>None\<close> there.
\<close>

definition split_colon :: "string \<Rightarrow> (string \<times> string) option" where
  "split_colon line =
     (case dropWhile (\<lambda>c. c \<noteq> CHR '':'') line of
        [] \<Rightarrow> None
      | _ # value \<Rightarrow> Some (takeWhile (\<lambda>c. c \<noteq> CHR '':'') line, value))"

text \<open>
  \<^verbatim>\<open>str(n)\<close> for a length: the decimal numeral. A digit \<open>d\<close> is below ten wherever
  \<open>digit_char\<close> is used.
\<close>

definition digit_char :: "nat \<Rightarrow> char" where
  "digit_char d = ''0123456789'' ! d"

function str :: "nat \<Rightarrow> string" where
  "str n = (if n < 10 then [digit_char n] else str (n div 10) @ [digit_char (n mod 10)])"
  by pat_completeness auto
termination
  by (relation "measure id") auto

text \<open>
  Iterating a file object yields its lines: each ends with LF, except possibly the last.
\<close>

fun readlines :: "string \<Rightarrow> string list" where
  "readlines [] = []"
| "readlines (c # cs) =
     (if c = LF then [c] # readlines cs
      else (case readlines cs of [] \<Rightarrow> [[c]] | l # ls \<Rightarrow> (c # l) # ls))"

section \<open>The writer\<close>

text \<open>
  A header dictionary is an association list with one entry per key
  (\<open>AList.update\<close> replaces the value of a key that is present and appends a new key).
  Dictionaries are objects: a caller that passes one to the writer passes a reference,
  so the model keeps them in a store and the writer receives an address. The world is
  the text written to the shared sink \<^verbatim>\<open>fileobj\<close> so far, together with that store.
\<close>

type_synonym headers = "(string \<times> string) list"

type_synonym ref = nat

record world =
  fileobj :: string
  heap :: "ref \<Rightarrow> headers"
  fresh_ref :: ref

record MultipartWriter =
  boundary :: string

definition fileobj_write :: "string \<Rightarrow> world \<Rightarrow> world" where
  "fileobj_write s w = w\<lparr>fileobj := fileobj w @ s\<rparr>"

text \<open>\<^verbatim>\<open>headers = {}\<close>: a new dictionary object.\<close>

definition new_dict :: "world \<Rightarrow> ref \<times> world" where
  "new_dict w = (fresh_ref w, w\<lparr>heap := (heap w)(fresh_ref w := []), fresh_ref := Suc (fresh_ref w)\<rparr>)"

text \<open>\<^verbatim>\<open>headers[k] = v\<close> on the object at address \<open>r\<close>.\<close>

definition setitem :: "ref \<Rightarrow> string \<Rightarrow> string \<Rightarrow> world \<Rightarrow> world" where
  "setitem r k v w = w\<lparr>heap := (heap w)(r := AList.update k v (heap w r))\<rparr>"

text \<open>
  \<^verbatim>\<open>_write_headers\<close>: the text it writes. Every \<open>name\<close> it looks up is a key of the
  dictionary, so \<open>the\<close> is applied to \<open>Some\<close> only.
\<close>

definition header_line :: "headers \<Rightarrow> string \<Rightarrow> string" where
  "header_line hs name = name @ '': '' @ the (map_of hs name) @ EOL"

definition write_headers :: "headers \<Rightarrow> string" where
  "write_headers hs =
     (if hs \<noteq> [] then concat (map (header_line hs) (sort (map fst hs))) else []) @ EOL"

text \<open>
  \<^verbatim>\<open>MultipartWriter.__init__(fileobj, headers, subtype, boundary)\<close>. The token that
  \<^verbatim>\<open>_make_boundary\<close> draws from \<^verbatim>\<open>uuid4\<close> is the parameter \<open>token\<close>.
\<close>

definition init :: "ref option \<Rightarrow> string \<Rightarrow> string option \<Rightarrow> string \<Rightarrow> world
    \<Rightarrow> MultipartWriter \<times> world" where
  "init hdrs subtype bnd token w =
     (let b = (case bnd of None \<Rightarrow> token | Some b \<Rightarrow> b);
          (r, w1) = (case hdrs of None \<Rightarrow> new_dict w | Some r \<Rightarrow> (r, w));
          w2 = setitem r ''Content-Type'' (''multipart/'' @ subtype @ ''; boundary=\"'' @ b @ ''\"'') w1
      in (\<lparr>boundary = b\<rparr>, fileobj_write (write_headers (heap w2 r)) w2))"

definition "open" :: "MultipartWriter \<Rightarrow> ref option \<Rightarrow> string \<Rightarrow> string option \<Rightarrow> string \<Rightarrow> world
    \<Rightarrow> MultipartWriter \<times> world" where
  "open self hdrs subtype bnd token w =
     init hdrs subtype bnd token (fileobj_write EOL (fileobj_write (boundary self) (fileobj_write ''--'' w)))"

definition add :: "MultipartWriter \<Rightarrow> string \<Rightarrow> string \<Rightarrow> ref option \<Rightarrow> world \<Rightarrow> world" where
  "add self mimetype content hdrs w =
     (let w0 = fileobj_write EOL (fileobj_write (boundary self) (fileobj_write ''--'' w));
          (r, w1) = (case hdrs of None \<Rightarrow> new_dict w0 | Some r \<Rightarrow> (r, w0));
          w2 = setitem r ''Content-Type'' mimetype w1;
          w3 = setitem r ''Content-Length'' (str (length content)) w2;
          w4 = fileobj_write (write_headers (heap w3 r)) w3
      in if content \<noteq> [] then fileobj_write EOL (fileobj_write content w4) else w4)"

definition close :: "MultipartWriter \<Rightarrow> world \<Rightarrow> world" where
  "close self w = fileobj_write EOL (fileobj_write ''--'' (fileobj_write (boundary self) (fileobj_write ''--'' w)))"


section \<open>The standard library's \<^verbatim>\<open>cgi.parse_header\<close>\<close>

text \<open>
  \<^verbatim>\<open>read_multipart\<close> calls \<^verbatim>\<open>cgi.parse_header\<close> of the Python 2.7 standard library on
  the \<^verbatim>\<open>Content-Type\<close> value. It is not part of the repository; the model follows the
  library's text:
  \<^verbatim>\<open>
  def _parseparam(s):
      while s[:1] == ';':
          s = s[1:]
          end = s.find(';')
          while end > 0 and (s.count('"', 0, end) - s.count('\\"', 0, end)) % 2:
              end = s.find(';', end + 1)
          if end < 0:
              end = len(s)
          f = s[:end]
          yield f.strip()
          s = s[end:]

  def parse_header(line):
      parts = _parseparam(';' + line)
      key = parts.next()
      pdict = {}
      for p in parts:
          i = p.find('=')
          if i >= 0:
              name = p[:i].strip().lower()
              value = p[i+1:].strip()
              if len(value) >= 2 and value[0] == value[-1] == '"':
                  value = value[1:-1]
                  value = value.replace('\\\\', '\\').replace('\\"', '"')
              pdict[name] = value
      return key, pdict
  \<close>
  An index that \<^verbatim>\<open>find\<close> returns is \<open>Some i\<close>, and its \<^verbatim>\<open>-1\<close> is \<open>None\<close>.
\<close>

definition find_char :: "char \<Rightarrow> string \<Rightarrow> nat \<Rightarrow> nat option" where
  "find_char c s start =
     (let i = start + length (takeWhile (\<lambda>x. x \<noteq> c) (drop start s))
      in if i < length s then Some i else None)"

text \<open>\<^verbatim>\<open>s.count(a + b)\<close> for two different bytes \<open>a\<close>, \<open>b\<close>: occurrences cannot overlap.\<close>

fun count_pair :: "char \<Rightarrow> char \<Rightarrow> string \<Rightarrow> nat" where
  "count_pair a b (x # y # s) =
     (if x = a \<and> y = b then Suc (count_pair a b s) else count_pair a b (y # s))"
| "count_pair a b s = 0"

text \<open>\<^verbatim>\<open>s.replace(a + b, new)\<close>, from left to right.\<close>

fun replace_pair :: "char \<Rightarrow> char \<Rightarrow> string \<Rightarrow> string \<Rightarrow> string" where
  "replace_pair a b new (x # y # s) =
     (if x = a \<and> y = b then new @ replace_pair a b new s else x # replace_pair a b new (y # s))"
| "replace_pair a b new s = s"

definition unbalanced :: "string \<Rightarrow> nat \<Rightarrow> bool" where
  "unbalanced s e =
     odd (int (count_list (take e s) (CHR 0x22)) - int (count_pair (CHR 0x5C) (CHR 0x22) (take e s)))"

text \<open>The inner \<^verbatim>\<open>while\<close> of \<^verbatim>\<open>_parseparam\<close>: \<open>e\<close> moves to the right at every round.\<close>

function parseparam_end :: "string \<Rightarrow> nat option \<Rightarrow> nat option" where
  "parseparam_end s None = None"
| "parseparam_end s (Some e) =
     (if e > 0 \<and> unbalanced s e then parseparam_end s (find_char (CHR '';'') s (e + 1)) else Some e)"
  by pat_completeness auto
termination
  by (relation "measure (\<lambda>(s, e). case e of None \<Rightarrow> 0 | Some i \<Rightarrow> Suc (Suc (length s) - i))")
    (auto simp: find_char_def Let_def split: option.splits if_splits)

function parseparam :: "string \<Rightarrow> string list" where
  "parseparam s =
     (case s of
        [] \<Rightarrow> []
      | c # s1 \<Rightarrow>
          if c = CHR '';'' then
            (let e = (case parseparam_end s1 (find_char (CHR '';'') s1 0) of
                        None \<Rightarrow> length s1 | Some i \<Rightarrow> i)
             in strip (take e s1) # parseparam (drop e s1))
          else [])"
  by pat_completeness auto
termination
  by (relation "measure length") auto

definition param_value :: "string \<Rightarrow> string" where
  "param_value v =
     (if length v \<ge> 2 \<and> hd v = CHR 0x22 \<and> last v = CHR 0x22
      then replace_pair (CHR 0x5C) (CHR 0x22) [CHR 0x22]
             (replace_pair (CHR 0x5C) (CHR 0x5C) [CHR 0x5C] (butlast (tl v)))
      else v)"

definition add_param :: "string \<Rightarrow> headers \<Rightarrow> headers" where
  "add_param p pdict =
     (case find_char (CHR ''='') p 0 of
        None \<Rightarrow> pdict
      | Some i \<Rightarrow> AList.update (lower (strip (take i p))) (param_value (strip (drop (i + 1) p))) pdict)"

text \<open>
  \<^verbatim>\<open>_parseparam(';' + line)\<close> yields at least one string, so \<^verbatim>\<open>parts.next()\<close> returns and
  the case of the empty list is never taken.
\<close>

definition parse_header :: "string \<Rightarrow> string \<times> headers" where
  "parse_header line =
     (case parseparam (CHR '';'' # line) of
        [] \<Rightarrow> ([], [])
      | key # ps \<Rightarrow> (key, fold add_param ps []))"

section \<open>The reader\<close>

text \<open>
  \<^verbatim>\<open>read_multipart\<close> is a generator over the lines of \<^verbatim>\<open>fileobj\<close>. The model takes the
  lines that the file object still holds and returns the parts the generator yields,
  in order, and how it ends: \<open>Inr rest\<close> when it returns, \<open>rest\<close> being the lines left
  unread in the file object, or \<open>Inl e\<close> when it raises. A part is the triple
  \<^verbatim>\<open>(headers, is_multipart, payload)\<close>: \<open>Leaf headers payload\<close> when \<^verbatim>\<open>is_multipart\<close> is
  false, and \<open>Multipart headers sub_parts\<close> when it is true. The headers of a part are as
  the consumer sees them when the part is yielded (the generator clears the dictionary
  object when it is resumed). The payload of a multipart part is a generator over the
  same file object; as the docstring demands, the consumer drains it before it asks
  for the next part, so the model runs it to its end at that point. When the nested
  generator raises, the parts it had yielded are kept and the exception ends the
  whole reading.

  The exceptions: \<^verbatim>\<open>ValueError\<close> from unpacking the split of a header line without a
  colon, \<^verbatim>\<open>TypeError\<close> from \<^verbatim>\<open>parse_header(None)\<close> when no \<^verbatim>\<open>content-type\<close> header was read,
  \<^verbatim>\<open>KeyError\<close> from \<^verbatim>\<open>params['boundary']\<close>.
\<close>

datatype error = ValueError | TypeError | KeyError

datatype part = Leaf headers string | Multipart headers "part list"


type_synonym result = "part list \<times> (error + string list)"

record reader =
  headers :: headers
  buf :: "string list"
  in_headers :: bool
  outer :: bool

text \<open>\<^verbatim>\<open>boundary and '--' + boundary + EOL or None\<close>: an empty boundary gives \<^verbatim>\<open>None\<close> too.\<close>

definition next_boundary :: "string option \<Rightarrow> string option" where
  "next_boundary bnd =
     (case bnd of None \<Rightarrow> None | Some b \<Rightarrow> if b \<noteq> [] then Some (''--'' @ b @ EOL) else None)"

definition last_boundary :: "string option \<Rightarrow> string option" where
  "last_boundary bnd =
     (case bnd of None \<Rightarrow> None | Some b \<Rightarrow> if b \<noteq> [] then Some (''--'' @ b @ ''--'' @ EOL) else None)"

definition start :: "string option \<Rightarrow> reader" where
  "start bnd = \<lparr>headers = [], buf = [], in_headers = (bnd = None), outer = (bnd = None)\<rparr>"

text \<open>\<^verbatim>\<open>_current_part\<close>: \<^verbatim>\<open>payload[:-1]\<close> drops the last byte.\<close>

definition current_part :: "reader \<Rightarrow> part" where
  "current_part st =
     (let payload = concat (buf st)
      in Leaf (headers st) (if endswith payload EOL then butlast payload else payload))"

definition yield :: "part \<Rightarrow> result \<Rightarrow> result" where
  "yield p r = (p # fst r, snd r)"

text \<open>The lines after the loop: \<^verbatim>\<open>if not outer and headers: yield _current_part()\<close>.\<close>

definition finish :: "reader \<Rightarrow> string list \<Rightarrow> result" where
  "finish st rest =
     (if \<not> outer st \<and> headers st \<noteq> [] then yield (current_part st) ([], Inr rest)
      else ([], Inr rest))"

function loop :: "string option \<Rightarrow> reader \<Rightarrow> string list \<Rightarrow> result" where
  "loop bnd st [] = finish st []"
| "loop bnd st (line # lines) =
     (if in_headers st then
        if line \<noteq> EOL then
          (case split_colon line of
             None \<Rightarrow> ([], Inl ValueError)
           | Some (name, value) \<Rightarrow>
               loop bnd (st\<lparr>headers := AList.update (strip (lower name)) (strip value) (headers st)\<rparr>)
                 lines)
        else
          (case map_of (headers st) ''content-type'' of
             None \<Rightarrow> ([], Inl TypeError)
           | Some ct \<Rightarrow>
               if startswith (fst (parse_header ct)) ''multipart/'' then
                 (case map_of (snd (parse_header ct)) ''boundary'' of
                    None \<Rightarrow> ([], Inl KeyError)
                  | Some sub_boundary \<Rightarrow>
                      if bnd \<noteq> None then
                        (case loop (Some sub_boundary) (start (Some sub_boundary)) lines of
                           (sub_parts, Inl e) \<Rightarrow> ([Multipart (headers st) sub_parts], Inl e)
                         | (sub_parts, Inr rest) \<Rightarrow>
                             yield (Multipart (headers st) sub_parts)
                               (loop bnd (st\<lparr>in_headers := False, headers := [], buf := []\<rparr>) rest))
                      else loop (Some sub_boundary) (start (Some sub_boundary)) lines)
               else loop bnd (st\<lparr>in_headers := False\<rparr>) lines)
      else if Some line = next_boundary bnd then
        if headers st \<noteq> [] then
          if \<not> outer st then
            yield (current_part st) (loop bnd (st\<lparr>headers := [], buf := [], in_headers := True\<rparr>) lines)
          else loop bnd (st\<lparr>outer := False, headers := [], buf := [], in_headers := True\<rparr>) lines
        else loop bnd (st\<lparr>in_headers := True\<rparr>) lines
      else if Some line = last_boundary bnd then finish st lines
      else loop bnd (st\<lparr>buf := buf st @ [line]\<rparr>) lines)"
  by pat_completeness auto

text \<open>
  \<^verbatim>\<open>read_multipart(fileobj, boundary)\<close>, for the lines \<open>lines\<close> that \<^verbatim>\<open>fileobj\<close> holds.
\<close>

definition read_multipart :: "string list \<Rightarrow> string option \<Rightarrow> result" where
  "read_multipart lines bnd = loop bnd (start bnd) lines"

section \<open>Definitions used to state the properties\<close>

text \<open>A world in which nothing has been written and every address holds an empty dictionary.\<close>

definition world0 :: world where
  "world0 = \<lparr>fileobj = [], heap = (\<lambda>r. []), fresh_ref = 0\<rparr>"

text \<open>
  The dictionary that \<^verbatim>\<open>add\<close> serializes: \<open>h0\<close> after the assignments
  \<^verbatim>\<open>headers['Content-Type'] = mimetype\<close> and \<^verbatim>\<open>headers['Content-Length'] = str(len(content))\<close>.
\<close>

definition part_headers :: "string \<Rightarrow> string \<Rightarrow> headers \<Rightarrow> headers" where
  "part_headers mimetype content h0 =
     AList.update ''Content-Length'' (str (length content)) (AList.update ''Content-Type'' mimetype h0)"

text \<open>The dictionary a call works on: the caller's object, or a new empty one for \<^verbatim>\<open>None\<close>.\<close>

definition given_headers :: "ref option \<Rightarrow> world \<Rightarrow> headers" where
  "given_headers hdrs w = (case hdrs of None \<Rightarrow> [] | Some r \<Rightarrow> heap w r)"

text \<open>The value of a string of decimal digits.\<close>

definition decimal :: "string \<Rightarrow> nat" where
  "decimal s = foldl (\<lambda>a c. 10 * a + (of_char c - 48)) 0 s"

text \<open>Worlds in which the caller holds a dictionary at every address.\<close>

definition world1 :: world where
  "world1 = \<lparr>fileobj = [],
     heap = (\<lambda>r. [(''Content-Type'', ''text/plain''), (''Content-Length'', ''3'')]),
     fresh_ref = 1\<rparr>"

definition world2 :: world where
  "world2 = \<lparr>fileobj = [], heap = (\<lambda>r. [(''X-Id'', ''7'')]), fresh_ref = 1\<rparr>"





section \<open>Termination of the reader\<close>

text \<open>
  A nested generator reads from the same file object, and the enclosing generator goes
  on with what it left: the loop ends because no call hands back more lines than it got.
\<close>

lemma snd_yield: "snd (yield p r) = snd r"
  by (simp add: yield_def)

lemma snd_finish: "snd (finish st rest) = Inr rest"
  by (simp add: finish_def yield_def)

lemma loop_rest_le:
  "loop_dom (bnd, st, ls) \<Longrightarrow> snd (loop bnd st ls) = Inr rest \<Longrightarrow> length rest \<le> length ls"
proof (induction bnd st ls arbitrary: rest rule: loop.pinduct)
  case (1 bnd st)
  then show ?case by (simp add: loop.psimps snd_finish)
next
  case (2 bnd st line lines)
  note eq = loop.psimps(2)[OF "2.hyps"]
  show ?case
  proof (cases "in_headers st")
    case hd: True
    show ?thesis
    proof (cases "line = EOL")
      case False
      show ?thesis
      proof (cases "split_colon line")
        case None
        with hd False "2.prems" show ?thesis by (simp add: eq)
      next
        case (Some nv)
        obtain name val where nv: "nv = (name, val)" by (cases nv)
        from hd False Some nv "2.prems" "2.IH"(1)[OF hd _ Some, of name val rest]
        show ?thesis by (simp add: eq)
      qed
    next
      case eol: True
      note eq = eq[unfolded eol]
      show ?thesis
      proof (cases "map_of (headers st) ''content-type''")
        case None
        with hd eol "2.prems" show ?thesis by (simp add: eq)
      next
        case (Some ct)
        show ?thesis
        proof (cases "startswith (fst (parse_header ct)) ''multipart/''")
          case False
          from hd eol Some False "2.prems" "2.IH"(5)[OF hd _ Some False, of rest]
          show ?thesis by (simp add: eq)
        next
          case mp: True
          show ?thesis
          proof (cases "map_of (snd (parse_header ct)) ''boundary''")
            case None
            with hd eol Some mp "2.prems" show ?thesis by (simp add: eq)
          next
            case sb: (Some sub)
            show ?thesis
            proof (cases "bnd = None")
              case True
              from hd eol Some mp sb True "2.prems" "2.IH"(4)[OF hd _ Some mp sb, of rest]
              show ?thesis by (simp add: eq[unfolded True])
            next
              case False
              obtain ps out where r: "loop (Some sub) (start (Some sub)) lines = (ps, out)"
                by (cases "loop (Some sub) (start (Some sub)) lines")
              show ?thesis
              proof (cases out)
                case (Inl e)
                with hd eol Some mp sb False r "2.prems" show ?thesis by (simp add: eq)
              next
                case (Inr rest1)
                have a: "length rest1 \<le> length lines"
                  using "2.IH"(2)[OF hd _ Some mp sb False, of rest1] eol r Inr by simp
                have b: "snd (loop bnd (st\<lparr>in_headers := False, headers := [], buf := []\<rparr>) rest1) = Inr rest"
                  using hd eol Some mp sb False r Inr "2.prems" by (simp add: eq snd_yield)
                have "length rest \<le> length rest1"
                  using "2.IH"(3)[OF hd _ Some mp sb False r[symmetric] Inr b] eol by simp
                with a show ?thesis by simp
              qed
            qed
          qed
        qed
      qed
    qed
  next
    case nh: False
    show ?thesis
    proof (cases "Some line = next_boundary bnd")
      case nb: True
      show ?thesis
      proof (cases "headers st = []")
        case True
        from nh nb True "2.prems" "2.IH"(8)[OF nh nb, of rest]
        show ?thesis by (simp add: eq)
      next
        case ne: False
        show ?thesis
        proof (cases "outer st")
          case True
          from nh nb ne True "2.prems" "2.IH"(7)[OF nh nb ne, of rest]
          show ?thesis by (simp add: eq)
        next
          case False
          from nh nb ne False "2.prems" "2.IH"(6)[OF nh nb ne False, of rest]
          show ?thesis by (simp add: eq snd_yield)
        qed
      qed
    next
      case nnb: False
      show ?thesis
      proof (cases "Some line = last_boundary bnd")
        case True
        with nh nnb "2.prems" show ?thesis by (simp add: eq snd_finish)
      next
        case False
        from nh nnb False "2.prems" "2.IH"(9)[OF nh nnb False, of rest]
        show ?thesis by (simp add: eq)
      qed
    qed
  qed
qed

termination loop
proof (relation "measure (\<lambda>(bnd, st, ls). length ls)", goal_cases)
  case (4 bnd st line lines ct sub x y rest)
  then show ?case using loop_rest_le[of "Some sub" "start (Some sub)" lines rest] 
    by (metis (no_types, lifting) in_measure le_imp_less_Suc length_Cons old.prod.case snd_conv)
qed auto

section \<open>Facts about the writer\<close>

declare str.simps [simp del]

lemma fileobj_write_simps [simp]:
  "fileobj (fileobj_write s w) = fileobj w @ s"
  "heap (fileobj_write s w) = heap w"
  "fresh_ref (fileobj_write s w) = fresh_ref w"
  by (simp_all add: fileobj_write_def)

lemma setitem_simps [simp]:
  "fileobj (setitem r k v w) = fileobj w"
  "heap (setitem r k v w) r' = (if r' = r then AList.update k v (heap w r) else heap w r')"
  "fresh_ref (setitem r k v w) = fresh_ref w"
  by (simp_all add: setitem_def)

lemma new_dict_simps [simp]:
  "fst (new_dict w) = fresh_ref w"
  "fileobj (snd (new_dict w)) = fileobj w"
  "heap (snd (new_dict w)) r = (if r = fresh_ref w then [] else heap w r)"
  by (simp_all add: new_dict_def)

lemma fileobj_add:
  "fileobj (add self mimetype content hdrs w) =
     fileobj w @ ''--'' @ boundary self @ EOL
       @ write_headers (part_headers mimetype content (given_headers hdrs w))
       @ (if content \<noteq> [] then content @ EOL else [])"
  by (cases hdrs) (simp_all add: add_def Let_def split_beta part_headers_def given_headers_def)

lemma heap_add:
  "heap (add self mimetype content (Some r) w) r' =
     (if r' = r then part_headers mimetype content (heap w r) else heap w r')"
  by (simp add: add_def Let_def part_headers_def)

lemma fileobj_close:
  "fileobj (close self w) = fileobj w @ ''--'' @ boundary self @ ''--'' @ EOL"
  by (simp add: close_def)



lemma heap_init:
  "heap (snd (init (Some r) subtype bnd token w)) r' =
     (if r' = r then AList.update ''Content-Type''
        (''multipart/'' @ subtype @ ''; boundary=\"'' @ (case bnd of None \<Rightarrow> token | Some b \<Rightarrow> b) @ ''\"'')
        (heap w r) else heap w r')"
  by (simp add: init_def Let_def)

lemma digit_char_value: "d < 10 \<Longrightarrow> of_char (digit_char d) = 48 + d"
proof -
  assume "d < 10"
  then have "d \<in> {0,1,2,3,4,5,6,7,8,9}" by auto
  then show ?thesis by (auto simp: digit_char_def)
qed

lemma decimal_str: "decimal (str n) = n"
proof (induction n rule: str.induct)
  case (1 n)
  show ?case
  proof (cases "n < 10")
    case True
    then show ?thesis by (subst str.simps) (simp add: digit_char_value decimal_def)
  next
    case False
    with 1 have "decimal (str (n div 10)) = n div 10" by simp
    with False show ?thesis
      by (subst str.simps) (simp add: digit_char_value decimal_def)
  qed
qed

lemma update_eq_iff: "AList.update k v al = al \<longleftrightarrow> map_of al k = Some v"
  by (induction al) auto

lemma update_nonempty: "AList.update k v al \<noteq> []"
  by (cases al) auto

lemma map_of_part_headers:
  "map_of (part_headers mimetype content h0) k =
     (if k = ''Content-Length'' then Some (str (length content))
      else if k = ''Content-Type'' then Some mimetype else map_of h0 k)"
  by (simp add: part_headers_def update_conv')

lemma keys_part_headers:
  "set (map fst (part_headers mimetype content h0)) =
     {''Content-Type'', ''Content-Length''} \<union> set (map fst h0)"
  by (auto simp: part_headers_def update_keys)

lemma part_headers_nonempty: "part_headers mimetype content h0 \<noteq> []"
  by (simp add: part_headers_def update_nonempty)

lemma part_headers_eq_iff:
  "part_headers mimetype content h0 = h0 \<longleftrightarrow>
     map_of h0 ''Content-Type'' = Some mimetype \<and> map_of h0 ''Content-Length'' = Some (str (length content))"
proof
  assume eq: "part_headers mimetype content h0 = h0"
  have "map_of (part_headers mimetype content h0) ''Content-Type'' = Some mimetype"
    "map_of (part_headers mimetype content h0) ''Content-Length'' = Some (str (length content))"
    by (simp_all add: map_of_part_headers)
  then show "map_of h0 ''Content-Type'' = Some mimetype \<and> map_of h0 ''Content-Length'' = Some (str (length content))"
    unfolding eq by simp
next
  assume a: "map_of h0 ''Content-Type'' = Some mimetype \<and> map_of h0 ''Content-Length'' = Some (str (length content))"
  then have 1: "AList.update ''Content-Type'' mimetype h0 = h0"
    and 2: "AList.update ''Content-Length'' (str (length content)) h0 = h0"
    by (simp_all add: update_eq_iff)
  show "part_headers mimetype content h0 = h0"
    unfolding part_headers_def 1 2 ..
qed

lemma write_headers_lines:
  "write_headers hs =
     concat (map (\<lambda>name. name @ '': '' @ the (map_of hs name) @ EOL) (sort (map fst hs))) @ EOL"
  unfolding write_headers_def header_line_def[abs_def] by (cases hs) simp_all

section \<open>The writer: what \<^verbatim>\<open>add\<close> and \<^verbatim>\<open>_write_headers\<close> emit\<close>

lemma sort_CT_CL:
  "sort [''Content-Type'', ''Content-Length''] = [''Content-Length'', ''Content-Type'']"
  by (simp add: less_eq_char_def less_char_def)

lemma str_0: "str 0 = ''0''"
  by (simp add: str.simps digit_char_def)

lemma str_length_abc: "str (length ''abc'') = ''3''"
  by (simp add: str.simps digit_char_def)

lemma world0_simps [simp]:
  "fileobj world0 = []"
  "heap world0 r = []"
  "fresh_ref world0 = 0"
  by (simp_all add: world0_def)

lemma part_headers_Nil:
  "part_headers mimetype content [] =
     [(''Content-Type'', mimetype), (''Content-Length'', str (length content))]"
  by (simp add: part_headers_def)

lemma given_headers_simps [simp]:
  "given_headers None w = []"
  "given_headers (Some r) w = heap w r"
  by (simp_all add: given_headers_def)

text \<open>
  Claim C4, amended. \<^verbatim>\<open>add\<close> appends to the sink: the opening boundary line; one line
  \<open>name: value\<close> for every key of the dictionary, in sorted order of the keys, where the
  dictionary is the caller's (or an empty one) with \<^verbatim>\<open>Content-Type\<close> set to the media type
  and \<^verbatim>\<open>Content-Length\<close> to the decimal numeral of the length of the content; a blank line;
  and then, when the content is not empty, the content and one line terminator. When the
  content is empty, nothing follows the blank line.
\<close>

theorem add_emits:
  "fileobj (add self mimetype content hdrs w) =
     fileobj w @ (''--'' @ boundary self @ EOL)
       @ concat (map (\<lambda>name. name @ '': '' @ the (map_of (part_headers mimetype content (given_headers hdrs w)) name) @ EOL)
           (sort (map fst (part_headers mimetype content (given_headers hdrs w)))))
       @ EOL
       @ (if content = [] then [] else content @ EOL)
   \<and> set (map fst (part_headers mimetype content (given_headers hdrs w))) =
       {''Content-Type'', ''Content-Length''} \<union> set (map fst (given_headers hdrs w))
   \<and> map_of (part_headers mimetype content (given_headers hdrs w)) ''Content-Type'' = Some mimetype
   \<and> map_of (part_headers mimetype content (given_headers hdrs w)) ''Content-Length'' = Some (str (length content))
   \<and> decimal (str (length content)) = length content
   \<and> (\<forall>k. k \<noteq> ''Content-Type'' \<and> k \<noteq> ''Content-Length'' \<longrightarrow>
         map_of (part_headers mimetype content (given_headers hdrs w)) k = map_of (given_headers hdrs w) k)
   \<and> sorted (sort (map fst (part_headers mimetype content (given_headers hdrs w))))"
proof -
  have 1: "fileobj (add self mimetype content hdrs w) =
     fileobj w @ (''--'' @ boundary self @ EOL)
       @ concat (map (\<lambda>name. name @ '': '' @ the (map_of (part_headers mimetype content (given_headers hdrs w)) name) @ EOL)
           (sort (map fst (part_headers mimetype content (given_headers hdrs w)))))
       @ EOL
       @ (if content = [] then [] else content @ EOL)"
    by (simp add: fileobj_add write_headers_lines)
  show ?thesis
    apply (intro conjI)
          apply (rule 1)
         apply (rule keys_part_headers)
        apply (simp add: map_of_part_headers)
       apply (simp add: map_of_part_headers)
      apply (rule decimal_str)
     apply (simp add: map_of_part_headers)
    apply simp
    done
qed

theorem add_emits_witness:
  "fileobj (add \<lparr>boundary = ''b''\<rparr> ''text/plain'' ''abc'' None world0) =
     ''--b'' @ EOL @ ''Content-Length: 3'' @ EOL @ ''Content-Type: text/plain'' @ EOL @ EOL
       @ ''abc'' @ EOL"
  using add_emits [of "\<lparr>boundary = ''b''\<rparr>" "''text/plain''" "''abc''" None world0]
  unfolding given_headers_simps part_headers_Nil str_length_abc
  by (simp add: sort_CT_CL)

text \<open>
  Claim C4 as stated says that one line terminator follows the content for every
  content. For the empty content the text would end with the blank line and one more
  terminator; \<^verbatim>\<open>add\<close> guards the content and its terminator with \<^verbatim>\<open>if content:\<close> and
  ends with the blank line.
\<close>

theorem add_empty_content_counterexample:
  "fileobj (add \<lparr>boundary = ''b''\<rparr> ''text/plain'' [] None world0) \<noteq>
     ''--b'' @ EOL @ ''Content-Length: 0'' @ EOL @ ''Content-Type: text/plain'' @ EOL @ EOL
       @ [] @ EOL"
proof -
  have "fileobj (add \<lparr>boundary = ''b''\<rparr> ''text/plain'' [] None world0) =
     ''--b'' @ EOL @ ''Content-Length: 0'' @ EOL @ ''Content-Type: text/plain'' @ EOL @ EOL"
    by (simp add: fileobj_add write_headers_lines part_headers_Nil str_0 sort_CT_CL)
  then show ?thesis by (simp add: EOL_def)
qed

text \<open>
  Claim C6. For every media type, \<^verbatim>\<open>add(mimetype, "")\<close> writes the opening boundary
  line, the header lines \<^verbatim>\<open>Content-Length: 0\<close> and \<^verbatim>\<open>Content-Type\<close>, and the blank line,
  and nothing after it: the boundary line that the next \<^verbatim>\<open>add\<close> or \<^verbatim>\<open>close\<close> writes follows
  the blank line directly. With headers of the caller the block still holds the line
  \<^verbatim>\<open>Content-Length: 0\<close> and still ends the output.
\<close>

theorem add_empty_leaf:
  "fileobj (add self mimetype [] None w) =
     fileobj w @ ''--'' @ boundary self @ EOL
       @ ''Content-Length: 0'' @ EOL @ ''Content-Type: '' @ mimetype @ EOL @ EOL
   \<and> fileobj (close self (add self mimetype [] None w)) =
     fileobj w @ ''--'' @ boundary self @ EOL
       @ ''Content-Length: 0'' @ EOL @ ''Content-Type: '' @ mimetype @ EOL @ EOL
       @ ''--'' @ boundary self @ ''--'' @ EOL
   \<and> fileobj (add self mimetype2 content2 None (add self mimetype [] None w)) =
     fileobj w @ ''--'' @ boundary self @ EOL
       @ ''Content-Length: 0'' @ EOL @ ''Content-Type: '' @ mimetype @ EOL @ EOL
       @ ''--'' @ boundary self @ EOL
       @ write_headers (part_headers mimetype2 content2 [])
       @ (if content2 \<noteq> [] then content2 @ EOL else [])
   \<and> fileobj (add self mimetype [] hdrs w) =
     fileobj w @ ''--'' @ boundary self @ EOL
       @ concat (map (header_line (part_headers mimetype [] (given_headers hdrs w)))
           (sort (map fst (part_headers mimetype [] (given_headers hdrs w)))))
       @ EOL
   \<and> ''Content-Length'' \<in> set (sort (map fst (part_headers mimetype [] (given_headers hdrs w))))
   \<and> header_line (part_headers mimetype [] (given_headers hdrs w)) ''Content-Length'' =
       ''Content-Length: 0'' @ EOL"
proof -
  have 1: "fileobj (add self mimetype [] None w) =
     fileobj w @ ''--'' @ boundary self @ EOL
       @ ''Content-Length: 0'' @ EOL @ ''Content-Type: '' @ mimetype @ EOL @ EOL"
    by (simp add: fileobj_add write_headers_lines part_headers_Nil str_0 sort_CT_CL)
  have 2: "fileobj (close self (add self mimetype [] None w)) =
     fileobj w @ ''--'' @ boundary self @ EOL
       @ ''Content-Length: 0'' @ EOL @ ''Content-Type: '' @ mimetype @ EOL @ EOL
       @ ''--'' @ boundary self @ ''--'' @ EOL"
    unfolding fileobj_close 1 by simp
  have 3: "fileobj (add self mimetype2 content2 None (add self mimetype [] None w)) =
     fileobj w @ ''--'' @ boundary self @ EOL
       @ ''Content-Length: 0'' @ EOL @ ''Content-Type: '' @ mimetype @ EOL @ EOL
       @ ''--'' @ boundary self @ EOL
       @ write_headers (part_headers mimetype2 content2 [])
       @ (if content2 \<noteq> [] then content2 @ EOL else [])"
    unfolding fileobj_add[of self mimetype2] 1 by simp
  have 4: "fileobj (add self mimetype [] hdrs w) =
     fileobj w @ ''--'' @ boundary self @ EOL
       @ concat (map (header_line (part_headers mimetype [] (given_headers hdrs w)))
           (sort (map fst (part_headers mimetype [] (given_headers hdrs w)))))
       @ EOL"
    using part_headers_nonempty[of mimetype "[]" "given_headers hdrs w"]
    by (simp add: fileobj_add write_headers_def)
  have 5: "''Content-Length'' \<in> set (sort (map fst (part_headers mimetype [] (given_headers hdrs w))))"
    using keys_part_headers[of mimetype "[]" "given_headers hdrs w"] by simp
  have 6: "header_line (part_headers mimetype [] (given_headers hdrs w)) ''Content-Length'' =
       ''Content-Length: 0'' @ EOL"
    by (simp add: header_line_def map_of_part_headers str_0)
  show ?thesis
    using 1 2 3 4 5 6 by (intro conjI)
qed

lemma sort_distinct_unique:
  fixes xs ys :: "'a::linorder list"
  assumes "distinct xs" "distinct ys" "set xs = set ys"
  shows "sort xs = sort ys"
proof -
  have "sort xs = sorted_list_of_set (set xs)" "sort ys = sorted_list_of_set (set ys)"
    using assms(1,2) by (simp_all add: sorted_list_of_set_sort_remdups distinct_remdups_id)
  with assms(3) show ?thesis by simp
qed

lemma map_of_eq_keys:
  assumes "map_of hs' = map_of hs"
  shows "set (map fst hs') = set (map fst hs)"
proof -
  have "dom (map_of hs') = dom (map_of hs)" using assms by simp
  then show ?thesis by (simp add: dom_map_of_conv_image_fst)
qed

text \<open>
  Claim C5. For every header dictionary (an association list with one entry per key),
  the text that \<^verbatim>\<open>_write_headers\<close> writes is one line \<open>name: value\<close> per key followed by
  the blank line, the names are in strictly increasing lexicographic order and are
  exactly the keys, and the text depends on the mapping only: two dictionaries that hold
  the same mapping, whatever their internal order, are serialized to the same bytes.
\<close>

theorem write_headers_sorted:
  assumes "distinct (map fst hs)"
  shows "write_headers hs =
           concat (map (\<lambda>name. name @ '': '' @ the (map_of hs name) @ EOL) (sort (map fst hs))) @ EOL
         \<and> sorted_wrt (<) (sort (map fst hs))
         \<and> set (sort (map fst hs)) = fst ` set hs
         \<and> (\<forall>hs'. distinct (map fst hs') \<and> map_of hs' = map_of hs \<longrightarrow>
               write_headers hs' = write_headers hs)"
proof -
  have 1: "sorted_wrt (<) (sort (map fst hs))"
    using assms by (simp add: strict_sorted_iff)
  have 2: "write_headers hs' = write_headers hs"
    if d: "distinct (map fst hs')" and m: "map_of hs' = map_of hs" for hs'
  proof -
    have "sort (map fst hs') = sort (map fst hs)"
      using d assms map_of_eq_keys[OF m] by (rule sort_distinct_unique)
    then show ?thesis
      unfolding write_headers_lines m by simp
  qed
  show ?thesis
    using 1 2 by (simp add: write_headers_lines)
qed

theorem write_headers_sorted_witness:
  "distinct (map fst [(''b'', ''2''), (''a'', ''1'')])
   \<and> write_headers [(''b'', ''2''), (''a'', ''1'')] = ''a: 1'' @ EOL @ ''b: 2'' @ EOL @ EOL
   \<and> write_headers [(''a'', ''1''), (''b'', ''2'')] = write_headers [(''b'', ''2''), (''a'', ''1'')]"
proof -
  have d: "distinct (map fst [(''b'', ''2''), (''a'', ''1'')])" by simp
  have d': "distinct (map fst [(''a'', ''1''), (''b'', ''2'')])" by simp
  have m: "map_of [(''a'', ''1''), (''b'', ''2'')] = map_of [(''b'', ''2''), (''a'', ''1'')]"
    by (rule ext) simp
  have s: "sort [''b'', ''a''] = [''a'', ''b'']"
    by (simp add: less_eq_char_def less_char_def)
  from write_headers_sorted [OF d] d' m
  have "write_headers [(''a'', ''1''), (''b'', ''2'')] = write_headers [(''b'', ''2''), (''a'', ''1'')]"
    by blast
  moreover from write_headers_sorted [OF d]
  have "write_headers [(''b'', ''2''), (''a'', ''1'')] = ''a: 1'' @ EOL @ ''b: 2'' @ EOL @ EOL"
    by (simp add: s)
  ultimately show ?thesis using d by simp
qed

section \<open>The writer and the caller's dictionary\<close>

lemma str_Suc3: "str (Suc (Suc (Suc 0))) = ''3''"
  using str_length_abc by simp

text \<open>
  Claim C10 as stated says that every non-empty dictionary passed to \<^verbatim>\<open>add\<close> is changed
  by the call. A dictionary that already maps \<^verbatim>\<open>Content-Type\<close> and \<^verbatim>\<open>Content-Length\<close> to the
  values that \<^verbatim>\<open>add\<close> assigns (as after an earlier \<^verbatim>\<open>add\<close> with the same dictionary, media
  type and length) holds the same mapping after the call.
\<close>

theorem add_headers_unchanged_counterexample:
  "heap world1 0 \<noteq> []
   \<and> heap (add \<lparr>boundary = ''b''\<rparr> ''text/plain'' ''abc'' (Some 0) world1) 0 = heap world1 0"
  by (simp add: heap_add part_headers_def str_Suc3 world1_def)

text \<open>
  Claim C10, amended. The constructor and \<^verbatim>\<open>add\<close> assign into the dictionary object that
  the caller passed: after the call that object is the old dictionary updated with the
  synthesized \<^verbatim>\<open>Content-Type\<close> (and, for \<^verbatim>\<open>add\<close>, \<^verbatim>\<open>Content-Length\<close>); no other object
  changes; and the object differs from what it was exactly when it did not already map
  those keys to those values. This holds for an empty dictionary too.
\<close>

theorem headers_mutated_in_place:
  "heap (snd (init (Some r) subtype bnd token w)) r =
     AList.update ''Content-Type''
       (''multipart/'' @ subtype @ ''; boundary=\"'' @ (case bnd of None \<Rightarrow> token | Some b \<Rightarrow> b) @ ''\"'')
       (heap w r)
   \<and> heap (add self mimetype content (Some r) w) r =
     AList.update ''Content-Length'' (str (length content))
       (AList.update ''Content-Type'' mimetype (heap w r))
   \<and> (\<forall>r'. r' \<noteq> r \<longrightarrow>
         heap (snd (init (Some r) subtype bnd token w)) r' = heap w r'
         \<and> heap (add self mimetype content (Some r) w) r' = heap w r')
   \<and> (heap (add self mimetype content (Some r) w) r \<noteq> heap w r \<longleftrightarrow>
        \<not> (map_of (heap w r) ''Content-Type'' = Some mimetype
           \<and> map_of (heap w r) ''Content-Length'' = Some (str (length content))))
   \<and> (heap (snd (init (Some r) subtype bnd token w)) r \<noteq> heap w r \<longleftrightarrow>
        map_of (heap w r) ''Content-Type'' \<noteq>
          Some (''multipart/'' @ subtype @ ''; boundary=\"'' @ (case bnd of None \<Rightarrow> token | Some b \<Rightarrow> b) @ ''\"''))"
proof -
  have 1: "heap (add self mimetype content (Some r) w) r \<noteq> heap w r \<longleftrightarrow>
        \<not> (map_of (heap w r) ''Content-Type'' = Some mimetype
           \<and> map_of (heap w r) ''Content-Length'' = Some (str (length content)))"
    unfolding heap_add by (simp add: part_headers_eq_iff)
  show ?thesis
    apply (intro conjI)
        apply (simp add: heap_init)
       apply (simp add: heap_add part_headers_def)
      apply (simp add: heap_init heap_add)
     apply (rule 1)
    apply (simp add: heap_init update_eq_iff)
    done
qed

theorem headers_mutated_in_place_witness:
  "heap world2 0 = [(''X-Id'', ''7'')]
   \<and> heap (add \<lparr>boundary = ''b''\<rparr> ''text/plain'' ''abc'' (Some 0) world2) 0 =
       [(''X-Id'', ''7''), (''Content-Type'', ''text/plain''), (''Content-Length'', ''3'')]
   \<and> heap (add \<lparr>boundary = ''b''\<rparr> ''text/plain'' ''abc'' (Some 0) world2) 1 = heap world2 1
   \<and> heap (add \<lparr>boundary = ''b''\<rparr> ''text/plain'' ''abc'' (Some 0) world2) 0 \<noteq> heap world2 0"
  using headers_mutated_in_place
    [of 0 "''mixed''" None "''t''" world2 "\<lparr>boundary = ''b''\<rparr>" "''text/plain''" "''abc''"]
  by (simp add: world2_def str_Suc3)

declare loop.simps [simp del]

lemma snd_loop_Cons:
  "snd (loop bnd st (line # lines)) =
     (if in_headers st then
        if line \<noteq> EOL then
          (case split_colon line of
             None \<Rightarrow> Inl ValueError
           | Some (name, value) \<Rightarrow>
               snd (loop bnd (st\<lparr>headers := AList.update (strip (lower name)) (strip value) (headers st)\<rparr>)
                 lines))
        else
          (case map_of (headers st) ''content-type'' of
             None \<Rightarrow> Inl TypeError
           | Some ct \<Rightarrow>
               if startswith (fst (parse_header ct)) ''multipart/'' then
                 (case map_of (snd (parse_header ct)) ''boundary'' of
                    None \<Rightarrow> Inl KeyError
                  | Some sub_boundary \<Rightarrow>
                      if bnd \<noteq> None then
                        (case snd (loop (Some sub_boundary) (start (Some sub_boundary)) lines) of
                           Inl e \<Rightarrow> Inl e
                         | Inr rest \<Rightarrow>
                             snd (loop bnd (st\<lparr>in_headers := False, headers := [], buf := []\<rparr>) rest))
                      else snd (loop (Some sub_boundary) (start (Some sub_boundary)) lines))
               else snd (loop bnd (st\<lparr>in_headers := False\<rparr>) lines))
      else if Some line = next_boundary bnd then
        if headers st \<noteq> [] then
          if \<not> outer st then
            snd (loop bnd (st\<lparr>headers := [], buf := [], in_headers := True\<rparr>) lines)
          else snd (loop bnd (st\<lparr>outer := False, headers := [], buf := [], in_headers := True\<rparr>) lines)
        else snd (loop bnd (st\<lparr>in_headers := True\<rparr>) lines)
      else if Some line = last_boundary bnd then Inr lines
      else snd (loop bnd (st\<lparr>buf := buf st @ [line]\<rparr>) lines))"
  by (simp add: loop.simps snd_yield snd_finish split: option.splits prod.splits sum.splits)

lemma loop_truncate:
  "snd (loop bnd st ls) = Inr r \<Longrightarrow> prefix ls' ls \<Longrightarrow>
     \<exists>r'. snd (loop bnd st ls') = Inr r' \<and> prefix r' r"
proof (induction bnd st ls arbitrary: r ls' rule: loop.induct)
  case (1 bnd st)
  then show ?case by (simp add: loop.simps snd_finish)
next
  case (2 bnd st line lines)
  show ?case
  proof (cases ls')
    case Nil
    then show ?thesis by (simp add: loop.simps snd_finish)
  next
    case (Cons l ls'')
    with "2.prems"(2) have l: "ls' = line # ls''" and p: "prefix ls'' lines" by simp_all
    note full = "2.prems"(1)
    show ?thesis
    proof (cases "in_headers st")
      case hd: True
      show ?thesis
      proof (cases "line = EOL")
        case False
        show ?thesis
        proof (cases "split_colon line")
          case None
          with hd False full show ?thesis by (simp add: snd_loop_Cons)
        next
          case (Some nv)
          obtain name val where nv: "nv = (name, val)" by (cases nv)
          have "snd (loop bnd (st\<lparr>headers := AList.update (strip (lower name)) (strip val) (headers st)\<rparr>) lines) = Inr r"
            using hd False Some nv full by (simp add: snd_loop_Cons)
          from "2.IH"(1)[OF hd False Some nv[symmetric] this p]
          show ?thesis using hd False Some nv by (simp add: snd_loop_Cons l)
        qed
      next
        case eol: True
        show ?thesis
        proof (cases "map_of (headers st) ''content-type''")
          case None
          with hd eol full show ?thesis by (simp add: snd_loop_Cons)
        next
          case (Some ct)
          show ?thesis
          proof (cases "startswith (fst (parse_header ct)) ''multipart/''")
            case False
            have "snd (loop bnd (st\<lparr>in_headers := False\<rparr>) lines) = Inr r"
              using hd eol Some False full by (simp add: snd_loop_Cons)
            from "2.IH"(5)[OF hd _ Some False this p] eol
            show ?thesis using hd Some False by (simp add: snd_loop_Cons l)
          next
            case mp: True
            show ?thesis
            proof (cases "map_of (snd (parse_header ct)) ''boundary''")
              case None
              with hd eol Some mp full show ?thesis by (simp add: snd_loop_Cons)
            next
              case sb: (Some sub)
              show ?thesis
              proof (cases "bnd = None")
                case True
                have "snd (loop (Some sub) (start (Some sub)) lines) = Inr r"
                  using hd eol Some mp sb True full by (simp add: snd_loop_Cons)
                from "2.IH"(4)[OF hd _ Some mp sb _ this p] eol True
                show ?thesis using hd Some mp sb by (simp add: snd_loop_Cons l)
              next
                case False
                obtain ps out where res: "loop (Some sub) (start (Some sub)) lines = (ps, out)"
                  by (cases "loop (Some sub) (start (Some sub)) lines")
                show ?thesis
                proof (cases out)
                  case (Inl e)
                  with hd eol Some mp sb False res full show ?thesis by (simp add: snd_loop_Cons)
                next
                  case (Inr rest1)
                  have a: "snd (loop (Some sub) (start (Some sub)) lines) = Inr rest1"
                    using res Inr by simp
                  from "2.IH"(2)[OF hd _ Some mp sb False a p] eol
                  obtain r1 where r1: "snd (loop (Some sub) (start (Some sub)) ls'') = Inr r1"
                    and p1: "prefix r1 rest1" by auto
                  have b: "snd (loop bnd (st\<lparr>in_headers := False, headers := [], buf := []\<rparr>) rest1) = Inr r"
                    using hd eol Some mp sb False a full by (simp add: snd_loop_Cons)
                  from "2.IH"(3)[OF hd _ Some mp sb False res[symmetric] Inr b p1] eol
                  show ?thesis using hd Some mp sb False r1 by (simp add: snd_loop_Cons l)
                qed
              qed
            qed
          qed
        qed
      qed
    next
      case nh: False
      show ?thesis
      proof (cases "Some line = next_boundary bnd")
        case nb: True
        show ?thesis
        proof (cases "headers st = []")
          case True
          have "snd (loop bnd (st\<lparr>in_headers := True\<rparr>) lines) = Inr r"
            using nh nb True full by (simp add: snd_loop_Cons)
          from "2.IH"(8)[OF nh nb _ this p] True
          show ?thesis using nh nb by (simp add: snd_loop_Cons l)
        next
          case ne: False
          show ?thesis
          proof (cases "outer st")
            case True
            have "snd (loop bnd (st\<lparr>outer := False, headers := [], buf := [], in_headers := True\<rparr>) lines) = Inr r"
              using nh nb ne True full by (simp add: snd_loop_Cons)
            from "2.IH"(7)[OF nh nb ne _ this p] True
            show ?thesis using nh nb ne by (simp add: snd_loop_Cons l)
          next
            case False
            have "snd (loop bnd (st\<lparr>headers := [], buf := [], in_headers := True\<rparr>) lines) = Inr r"
              using nh nb ne False full by (simp add: snd_loop_Cons)
            from "2.IH"(6)[OF nh nb ne False this p]
            show ?thesis using nh nb ne False by (simp add: snd_loop_Cons l)
          qed
        qed
      next
        case nnb: False
        show ?thesis
        proof (cases "Some line = last_boundary bnd")
          case True
          with nh nnb full p show ?thesis by (simp add: snd_loop_Cons l)
        next
          case False
          have "snd (loop bnd (st\<lparr>buf := buf st @ [line]\<rparr>) lines) = Inr r"
            using nh nnb False full by (simp add: snd_loop_Cons)
          from "2.IH"(9)[OF nh nnb False this p]
          show ?thesis using nh nnb False by (simp add: snd_loop_Cons l)
        qed
      qed
    qed
  qed
qed

section \<open>The reader: evaluation on concrete inputs\<close>

lemmas reader_eval =
  read_multipart_def start_def next_boundary_def last_boundary_def EOL_def CR_def LF_def
  split_colon_def strip_def isspace_def lower_def lower_char_def finish_def yield_def
  current_part_def endswith_def startswith_def loop.simps

lemma parse_header_text_plain: "parse_header ''text/plain'' = (''text/plain'', [])"
  by (simp add: parse_header_def find_char_def strip_def isspace_def)

text \<open>
  Claim C2 (the code does otherwise). The part whose body on the wire is
  \<^verbatim>\<open>Just testing\<close> followed by CRLF and the terminal boundary line is yielded with the
  payload \<^verbatim>\<open>Just testing\<close> followed by CR: \<^verbatim>\<open>_current_part\<close> tests for the two bytes of
  \<^verbatim>\<open>EOL\<close> and then drops one byte, \<^verbatim>\<open>payload[:-1]\<close>.
\<close>

theorem current_part_keeps_CR:
  "read_multipart
     [''--b'' @ EOL, ''Content-Type: text/plain'' @ EOL, EOL, ''Just testing'' @ EOL,
      ''--b--'' @ EOL] (Some ''b'')
   = ([Leaf [(''content-type'', ''text/plain'')] (''Just testing'' @ [CR])], Inr [])"
  by (simp add: reader_eval parse_header_text_plain)

text \<open>
  Claim C7 (the code does otherwise). In inner mode the lines before the first
  opening boundary line are appended to \<^verbatim>\<open>buf\<close>; at that boundary line \<^verbatim>\<open>headers\<close> is
  empty, so \<^verbatim>\<open>del buf[:]\<close> is not reached, and the first part is yielded with the preamble
  in front of its own body.
\<close>

theorem preamble_in_first_payload:
  "read_multipart
     [''junk'' @ EOL, ''--b'' @ EOL, ''Content-Type: text/plain'' @ EOL, EOL, ''body'' @ EOL,
      ''--b--'' @ EOL] (Some ''b'')
   = ([Leaf [(''content-type'', ''text/plain'')] (''junk'' @ EOL @ ''body'' @ [CR])], Inr [])"
  by (simp add: reader_eval parse_header_text_plain)

section \<open>The reader: header errors and the end of the input\<close>

lemma split_colon_None: "CHR '':'' \<notin> set line \<Longrightarrow> split_colon line = None"
proof -
  assume "CHR '':'' \<notin> set line"
  then have "dropWhile (\<lambda>c. c \<noteq> CHR '':'') line = []"
    by (induction line) auto
  then show ?thesis
    unfolding split_colon_def by (simp only: list.case)
qed

lemma split_colon_Some:
  "CHR '':'' \<in> set line \<Longrightarrow> \<exists>name value. split_colon line = Some (name, value)"
  by (cases "dropWhile (\<lambda>c. c \<noteq> CHR '':'') line") (auto simp: split_colon_def)

lemma loop_bad_header:
  "in_headers st \<Longrightarrow> line \<noteq> EOL \<Longrightarrow> CHR '':'' \<notin> set line \<Longrightarrow>
     loop bnd st (line # rest) = ([], Inl ValueError)"
  by (simp add: loop.simps split_colon_None)

lemma loop_good_headers_then_bad:
  "in_headers st \<Longrightarrow> \<forall>l \<in> set hls. l \<noteq> EOL \<and> CHR '':'' \<in> set l \<Longrightarrow>
     line \<noteq> EOL \<Longrightarrow> CHR '':'' \<notin> set line \<Longrightarrow>
     loop bnd st (hls @ line # rest) = ([], Inl ValueError)"
proof (induction hls arbitrary: st)
  case Nil
  then show ?case by (simp add: loop_bad_header)
next
  case (Cons l hls)
  from Cons.prems(2) have l: "l \<noteq> EOL" "CHR '':'' \<in> set l" by simp_all
  from split_colon_Some[OF l(2)] obtain name val where s: "split_colon l = Some (name, val)"
    by blast
  have "loop bnd st ((l # hls) @ line # rest) =
      loop bnd (st\<lparr>headers := AList.update (strip (lower name)) (strip val) (headers st)\<rparr>)
        (hls @ line # rest)"
    using Cons.prems(1) l(1) s by (simp add: loop.simps)
  also have "\<dots> = ([], Inl ValueError)"
    using Cons.prems by (intro Cons.IH) simp_all
  finally show ?case .
qed

lemma loop_preamble:
  "\<not> in_headers st \<Longrightarrow> \<forall>l \<in> set pre. Some l \<noteq> next_boundary bnd \<and> Some l \<noteq> last_boundary bnd \<Longrightarrow>
     loop bnd st (pre @ rest) = loop bnd (st\<lparr>buf := buf st @ pre\<rparr>) rest"
proof (induction pre arbitrary: st)
  case Nil
  then show ?case by simp
next
  case (Cons l pre)
  have "loop bnd st ((l # pre) @ rest) = loop bnd (st\<lparr>buf := buf st @ [l]\<rparr>) (pre @ rest)"
    using Cons.prems by (simp add: loop.simps)
  also have "\<dots> = loop bnd (st\<lparr>buf := buf st @ [l], buf := buf (st\<lparr>buf := buf st @ [l]\<rparr>) @ pre\<rparr>) rest"
    using Cons.prems by (intro Cons.IH) simp_all
  finally show ?case by simp
qed

text \<open>
  Claim C9. A line that is read as a header line (the loop is in its \<^verbatim>\<open>in_headers\<close>
  state and the line is not the blank line) and that has no colon raises: the
  unpacking of \<^verbatim>\<open>line.split(':', 1)\<close> fails with \<^verbatim>\<open>ValueError\<close>, which is the failure the
  specification calls \<^verbatim>\<open>MalformedHeader\<close>. From that line on the generator yields nothing
  more, whatever follows in the input. This holds in every state in which headers are
  read; in particular in the header block of the envelope (outer mode), in the header
  block of the first part (inner mode, after any preamble), and an exception raised by
  the reader of a nested envelope ends the enclosing sequence as well.
\<close>

theorem malformed_header_raises:
  "(in_headers st \<and> line \<noteq> EOL \<and> CHR '':'' \<notin> set line \<longrightarrow>
      loop bnd st (line # rest) = ([], Inl ValueError))
   \<and> ((\<forall>l \<in> set hls. l \<noteq> EOL \<and> CHR '':'' \<in> set l) \<and> line \<noteq> EOL \<and> CHR '':'' \<notin> set line \<longrightarrow>
      read_multipart (hls @ line # rest) None = ([], Inl ValueError))
   \<and> (b \<noteq> [] \<and> (\<forall>l \<in> set pre. l \<noteq> ''--'' @ b @ EOL \<and> l \<noteq> ''--'' @ b @ ''--'' @ EOL)
       \<and> (\<forall>l \<in> set hls. l \<noteq> EOL \<and> CHR '':'' \<in> set l) \<and> line \<noteq> EOL \<and> CHR '':'' \<notin> set line \<longrightarrow>
      read_multipart (pre @ (''--'' @ b @ EOL) # hls @ line # rest) (Some b) = ([], Inl ValueError))
   \<and> (in_headers st \<and> bnd \<noteq> None \<and> map_of (headers st) ''content-type'' = Some ct
       \<and> startswith (fst (parse_header ct)) ''multipart/''
       \<and> map_of (snd (parse_header ct)) ''boundary'' = Some sub
       \<and> loop (Some sub) (start (Some sub)) rest = (sub_parts, Inl e) \<longrightarrow>
      loop bnd st (EOL # rest) = ([Multipart (headers st) sub_parts], Inl e))"
proof (intro conjI impI)
  assume "in_headers st \<and> line \<noteq> EOL \<and> CHR '':'' \<notin> set line"
  then show "loop bnd st (line # rest) = ([], Inl ValueError)"
    by (simp add: loop_bad_header)
next
  assume "(\<forall>l \<in> set hls. l \<noteq> EOL \<and> CHR '':'' \<in> set l) \<and> line \<noteq> EOL \<and> CHR '':'' \<notin> set line"
  then show "read_multipart (hls @ line # rest) None = ([], Inl ValueError)"
    unfolding read_multipart_def by (intro loop_good_headers_then_bad) (simp_all add: start_def)
next
  assume a: "b \<noteq> [] \<and> (\<forall>l \<in> set pre. l \<noteq> ''--'' @ b @ EOL \<and> l \<noteq> ''--'' @ b @ ''--'' @ EOL)
       \<and> (\<forall>l \<in> set hls. l \<noteq> EOL \<and> CHR '':'' \<in> set l) \<and> line \<noteq> EOL \<and> CHR '':'' \<notin> set line"
  let ?st = "(start (Some b))\<lparr>buf := buf (start (Some b)) @ pre\<rparr>"
  have 1: "loop (Some b) (start (Some b)) (pre @ (''--'' @ b @ EOL) # hls @ line # rest)
      = loop (Some b) ?st ((''--'' @ b @ EOL) # hls @ line # rest)"
    using a by (intro loop_preamble) (auto simp: start_def next_boundary_def last_boundary_def)
  have 2: "loop (Some b) ?st ((''--'' @ b @ EOL) # hls @ line # rest)
      = loop (Some b) (?st\<lparr>in_headers := True\<rparr>) (hls @ line # rest)"
    using a by (simp add: loop.simps start_def next_boundary_def)
  have 3: "loop (Some b) (?st\<lparr>in_headers := True\<rparr>) (hls @ line # rest) = ([], Inl ValueError)"
    using a by (intro loop_good_headers_then_bad) simp_all
  show "read_multipart (pre @ (''--'' @ b @ EOL) # hls @ line # rest) (Some b) = ([], Inl ValueError)"
    unfolding read_multipart_def 1 2 3 ..
next
  assume "in_headers st \<and> bnd \<noteq> None \<and> map_of (headers st) ''content-type'' = Some ct
       \<and> startswith (fst (parse_header ct)) ''multipart/''
       \<and> map_of (snd (parse_header ct)) ''boundary'' = Some sub
       \<and> loop (Some sub) (start (Some sub)) rest = (sub_parts, Inl e)"
  then show "loop bnd st (EOL # rest) = ([Multipart (headers st) sub_parts], Inl e)"
    by (simp add: loop.simps)
qed

theorem malformed_header_raises_witness:
  "read_multipart [''X-A: 1'' @ EOL, ''no separator here'' @ EOL, EOL] None = ([], Inl ValueError)
   \<and> read_multipart
       [''junk'' @ EOL, ''--b'' @ EOL, ''Content-Type: text/plain'' @ EOL, ''garbage'' @ EOL,
        EOL, ''body'' @ EOL, ''--b--'' @ EOL] (Some ''b'') = ([], Inl ValueError)"
proof -
  have h1: "\<forall>l \<in> set [''X-A: 1'' @ EOL]. l \<noteq> EOL \<and> CHR '':'' \<in> set l"
    and h2: "\<forall>l \<in> set [''Content-Type: text/plain'' @ EOL]. l \<noteq> EOL \<and> CHR '':'' \<in> set l"
    and b1: "''no separator here'' @ EOL \<noteq> EOL \<and> CHR '':'' \<notin> set (''no separator here'' @ EOL)"
    and b2: "''garbage'' @ EOL \<noteq> EOL \<and> CHR '':'' \<notin> set (''garbage'' @ EOL)"
    and p: "''b'' \<noteq> [] \<and> (\<forall>l \<in> set [''junk'' @ EOL]. l \<noteq> ''--'' @ ''b'' @ EOL \<and> l \<noteq> ''--'' @ ''b'' @ ''--'' @ EOL)"
    by (simp_all add: EOL_def CR_def LF_def)
  from malformed_header_raises
    [of _ "''no separator here'' @ EOL" _ "[EOL]" "[''X-A: 1'' @ EOL]"] h1 b1
  have 1: "read_multipart ([''X-A: 1'' @ EOL] @ (''no separator here'' @ EOL) # [EOL]) None
      = ([], Inl ValueError)"
    by blast
  from malformed_header_raises
    [of _ "''garbage'' @ EOL" _ "[EOL, ''body'' @ EOL, ''--b--'' @ EOL]"
       "[''Content-Type: text/plain'' @ EOL]" "''b''" "[''junk'' @ EOL]"] h2 b2 p
  have 2: "read_multipart ([''junk'' @ EOL] @ (''--'' @ ''b'' @ EOL) #
        [''Content-Type: text/plain'' @ EOL] @ (''garbage'' @ EOL) # [EOL, ''body'' @ EOL, ''--b--'' @ EOL])
        (Some ''b'') = ([], Inl ValueError)"
    by blast
  from 1 2 show ?thesis by simp
qed

lemma readlines_Nil_iff: "readlines s = [] \<longleftrightarrow> s = []"
  by (induction s) (auto split: list.splits)

lemma readlines_append:
  "a = [] \<or> last a = LF \<Longrightarrow> readlines (a @ b) = readlines a @ readlines b"
proof (induction a)
  case Nil
  then show ?case by simp
next
  case (Cons c cs)
  show ?case
  proof (cases "cs = []")
    case True
    with Cons.prems show ?thesis by simp
  next
    case False
    with Cons.prems have "last cs = LF" by simp
    with Cons.IH have ih: "readlines (cs @ b) = readlines cs @ readlines b" by simp
    from False obtain l ls where r: "readlines cs = l # ls"
      by (cases "readlines cs") (simp_all add: readlines_Nil_iff)
    show ?thesis by (simp add: ih r)
  qed
qed

lemma readlines_take_prefix:
  "take k stream = [] \<or> last (take k stream) = LF \<Longrightarrow> prefix (readlines (take k stream)) (readlines stream)"
proof -
  assume a: "take k stream = [] \<or> last (take k stream) = LF"
  have "readlines (take k stream @ drop k stream) = readlines (take k stream) @ readlines (drop k stream)"
    using a by (rule readlines_append)
  then show ?thesis by (simp add: prefix_def)
qed

lemmas readlines_eval = readlines.simps EOL_def CR_def LF_def

text \<open>
  Claim C8 as stated promises that no input that ends before a terminal boundary line
  raises. The stream below is read without an exception. Its first ten bytes are the
  opening boundary line and the beginning \<^verbatim>\<open>Conte\<close> of the header line; the reader takes
  \<^verbatim>\<open>Conte\<close> for a header line, and the unpacking of its split raises \<^verbatim>\<open>ValueError\<close>.
\<close>

theorem cut_header_line_counterexample:
  "read_multipart
     (readlines (''--b'' @ EOL @ ''Content-Type: text/plain'' @ EOL @ EOL @ ''body'' @ EOL
        @ ''--b--'' @ EOL)) (Some ''b'')
     = ([Leaf [(''content-type'', ''text/plain'')] (''body'' @ [CR])], Inr [])
   \<and> readlines (take 10 (''--b'' @ EOL @ ''Content-Type: text/plain'' @ EOL @ EOL @ ''body'' @ EOL
        @ ''--b--'' @ EOL)) = [''--b'' @ EOL, ''Conte'']
   \<and> read_multipart [''--b'' @ EOL, ''Conte''] (Some ''b'') = ([], Inl ValueError)"
proof (intro conjI)
  have "readlines (''--b'' @ EOL @ ''Content-Type: text/plain'' @ EOL @ EOL @ ''body'' @ EOL
        @ ''--b--'' @ EOL)
      = [''--b'' @ EOL, ''Content-Type: text/plain'' @ EOL, EOL, ''body'' @ EOL, ''--b--'' @ EOL]"
    by (simp add: readlines_eval)
  then show "read_multipart
     (readlines (''--b'' @ EOL @ ''Content-Type: text/plain'' @ EOL @ EOL @ ''body'' @ EOL
        @ ''--b--'' @ EOL)) (Some ''b'')
     = ([Leaf [(''content-type'', ''text/plain'')] (''body'' @ [CR])], Inr [])"
    by (simp add: reader_eval parse_header_text_plain)
  show "readlines (take 10 (''--b'' @ EOL @ ''Content-Type: text/plain'' @ EOL @ EOL @ ''body'' @ EOL
        @ ''--b--'' @ EOL)) = [''--b'' @ EOL, ''Conte'']"
    by (simp add: readlines_eval)
  show "read_multipart [''--b'' @ EOL, ''Conte''] (Some ''b'') = ([], Inl ValueError)"
    by (simp add: reader_eval)
qed

text \<open>
  Claim C8, amended, in three parts.
  \<^item> The end of the input is not an error in any state of the reader: when no line is
    left, the generator yields the pending part if it is in inner mode and headers have
    been gathered, and returns.
  \<^item> If reading a sequence of lines returns, then reading any initial segment of that
    sequence (the input ends after a whole line, for instance before the terminal
    boundary line) returns as well.
  \<^item> The same for a stream of bytes that is cut after a line feed: if reading the lines of
    \<open>stream\<close> returns, so does reading the lines of its first \<open>k\<close> bytes when these are none
    or end with a line feed.

  Nothing is said of a stream cut inside a line.
\<close>

theorem truncated_input_ends_quietly:
  "loop bnd st [] = (if \<not> outer st \<and> headers st \<noteq> [] then [current_part st] else [], Inr [])
   \<and> (snd (read_multipart lines bnd) = Inr rest \<longrightarrow>
        (\<exists>rest'. snd (read_multipart (take n lines) bnd) = Inr rest'))
   \<and> (snd (read_multipart (readlines stream) bnd) = Inr rest
        \<and> (take k stream = [] \<or> last (take k stream) = LF) \<longrightarrow>
        (\<exists>rest'. snd (read_multipart (readlines (take k stream)) bnd) = Inr rest'))"
proof (intro conjI impI)
  show "loop bnd st [] = (if \<not> outer st \<and> headers st \<noteq> [] then [current_part st] else [], Inr [])"
    by (simp add: loop.simps finish_def yield_def)
next
  assume "snd (read_multipart lines bnd) = Inr rest"
  then have "\<exists>r'. snd (loop bnd (start bnd) (take n lines)) = Inr r' \<and> prefix r' rest"
    unfolding read_multipart_def by (rule loop_truncate) (rule take_is_prefix)
  then show "\<exists>rest'. snd (read_multipart (take n lines) bnd) = Inr rest'"
    unfolding read_multipart_def by blast
next
  assume a: "snd (read_multipart (readlines stream) bnd) = Inr rest
        \<and> (take k stream = [] \<or> last (take k stream) = LF)"
  then have "prefix (readlines (take k stream)) (readlines stream)"
    by (intro readlines_take_prefix) simp
  with a have "\<exists>r'. snd (loop bnd (start bnd) (readlines (take k stream))) = Inr r' \<and> prefix r' rest"
    unfolding read_multipart_def by (intro loop_truncate) simp_all
  then show "\<exists>rest'. snd (read_multipart (readlines (take k stream)) bnd) = Inr rest'"
    unfolding read_multipart_def by blast
qed

theorem truncated_input_ends_quietly_witness:
  "snd (read_multipart
     [''--b'' @ EOL, ''Content-Type: text/plain'' @ EOL, EOL, ''Just testing'' @ EOL,
      ''--b--'' @ EOL] (Some ''b'')) = Inr []
   \<and> (\<exists>rest'. snd (read_multipart
         (take 4 [''--b'' @ EOL, ''Content-Type: text/plain'' @ EOL, EOL, ''Just testing'' @ EOL,
            ''--b--'' @ EOL]) (Some ''b'')) = Inr rest')
   \<and> snd (read_multipart (readlines (''--b'' @ EOL @ ''Content-Type: text/plain'' @ EOL @ EOL
         @ ''body'' @ EOL @ ''--b--'' @ EOL)) (Some ''b'')) = Inr []
   \<and> last (take 5 (''--b'' @ EOL @ ''Content-Type: text/plain'' @ EOL @ EOL
         @ ''body'' @ EOL @ ''--b--'' @ EOL)) = LF
   \<and> (\<exists>rest'. snd (read_multipart (readlines (take 5 (''--b'' @ EOL @ ''Content-Type: text/plain'' @ EOL @ EOL
         @ ''body'' @ EOL @ ''--b--'' @ EOL))) (Some ''b'')) = Inr rest')"
proof -
  have 1: "snd (read_multipart
     [''--b'' @ EOL, ''Content-Type: text/plain'' @ EOL, EOL, ''Just testing'' @ EOL,
      ''--b--'' @ EOL] (Some ''b'')) = Inr []"
    by (simp add: reader_eval parse_header_text_plain)
  have "readlines (''--b'' @ EOL @ ''Content-Type: text/plain'' @ EOL @ EOL @ ''body'' @ EOL
        @ ''--b--'' @ EOL)
      = [''--b'' @ EOL, ''Content-Type: text/plain'' @ EOL, EOL, ''body'' @ EOL, ''--b--'' @ EOL]"
    by (simp add: readlines_eval)
  then have 2: "snd (read_multipart (readlines (''--b'' @ EOL @ ''Content-Type: text/plain'' @ EOL @ EOL
         @ ''body'' @ EOL @ ''--b--'' @ EOL)) (Some ''b'')) = Inr []"
    by (simp add: reader_eval parse_header_text_plain)
  have 3: "last (take 5 (''--b'' @ EOL @ ''Content-Type: text/plain'' @ EOL @ EOL
         @ ''body'' @ EOL @ ''--b--'' @ EOL)) = LF"
    by (simp add: EOL_def)
  note t = truncated_input_ends_quietly
    [where lines = "[''--b'' @ EOL, ''Content-Type: text/plain'' @ EOL, EOL, ''Just testing'' @ EOL,
      ''--b--'' @ EOL]" and bnd = "Some ''b''" and rest = "[]" and n = 4 and k = 5
      and stream = "''--b'' @ EOL @ ''Content-Type: text/plain'' @ EOL @ EOL
         @ ''body'' @ EOL @ ''--b--'' @ EOL"]
  have 4: "\<exists>rest'. snd (read_multipart
         (take 4 [''--b'' @ EOL, ''Content-Type: text/plain'' @ EOL, EOL, ''Just testing'' @ EOL,
            ''--b--'' @ EOL]) (Some ''b'')) = Inr rest'"
    by (rule t[THEN conjunct2, THEN conjunct1, rule_format, OF 1])
  have 5: "\<exists>rest'. snd (read_multipart (readlines (take 5 (''--b'' @ EOL @ ''Content-Type: text/plain'' @ EOL @ EOL
         @ ''body'' @ EOL @ ''--b--'' @ EOL))) (Some ''b'')) = Inr rest'"
    by (rule t[THEN conjunct2, THEN conjunct2, rule_format, OF conjI[OF 2 disjI2[OF 3]]])
  from 1 4 2 3 5 show ?thesis by (intro conjI)
qed

section \<open>Strings: facts for the round trip\<close>




lemma isspace_simps [simp]:
  "isspace CR" "isspace LF" "isspace (CHR '' '')"
  by (simp_all add: isspace_def CR_def LF_def)










section \<open>\<^verbatim>\<open>parse_header\<close> on the content types that the writer emits\<close>

declare parseparam.simps [simp del]












section \<open>The reader on the lines of a written envelope\<close>



lemma boundary_lines_differ: "''--'' @ b @ ''--'' @ EOL \<noteq> ''--'' @ b @ EOL"
  by (simp add: EOL_def CR_def)



















section \<open>The lines of a written envelope\<close>










section \<open>Round trip of a flat envelope\<close>







section \<open>Round trip of a nested envelope\<close>









end
